theory Spec2Isabelle
  imports Main
begin

section \<open>Python strings\<close>

text \<open>
  A Python \<^verbatim>\<open>str\<close> is modelled as a HOL \<^typ>\<open>string\<close>: a list of characters with the
  code points below 256.  The character classes below are Python's on that range:
  \<^verbatim>\<open>str.isspace\<close> (which is also what \<^verbatim>\<open>str.strip()\<close>, \<^verbatim>\<open>str.split()\<close> and the
  regular expression class \<^verbatim>\<open>\s\<close> use), the class \<^verbatim>\<open>\w\<close>, \<^verbatim>\<open>str.isdigit\<close> and
  \<^verbatim>\<open>str.lower\<close>.
\<close>

definition is_space :: "char \<Rightarrow> bool" where
  "is_space c = ((of_char c :: nat) \<in> set [9, 10, 11, 12, 13, 28, 29, 30, 31, 32, 133, 160])"

definition is_word :: "char \<Rightarrow> bool" where
  "is_word c =
     (let n = (of_char c :: nat)
      in (48 \<le> n \<and> n \<le> 57) \<or> (65 \<le> n \<and> n \<le> 90) \<or> n = 95 \<or> (97 \<le> n \<and> n \<le> 122)
         \<or> n \<in> set [170, 178, 179, 181, 185, 186, 188, 189, 190]
         \<or> (192 \<le> n \<and> n \<le> 214) \<or> (216 \<le> n \<and> n \<le> 246) \<or> (248 \<le> n \<and> n \<le> 255))"

definition is_digit :: "char \<Rightarrow> bool" where
  "is_digit c =
     (let n = (of_char c :: nat) in (48 \<le> n \<and> n \<le> 57) \<or> n \<in> set [178, 179, 185])"

definition lower_char :: "char \<Rightarrow> char" where
  "lower_char c =
     (let n = (of_char c :: nat)
      in if (65 \<le> n \<and> n \<le> 90) \<or> (192 \<le> n \<and> n \<le> 214) \<or> (216 \<le> n \<and> n \<le> 222)
         then char_of (n + 32) else c)"

definition lower :: "string \<Rightarrow> string" where
  "lower s = map lower_char s"

text \<open>\<^verbatim>\<open>s.strip()\<close>: whitespace is removed at both ends.\<close>

definition strip :: "string \<Rightarrow> string" where
  "strip s = rev (dropWhile is_space (rev (dropWhile is_space s)))"

text \<open>
  \<^verbatim>\<open>s.split()\<close>: the maximal runs of characters that are not whitespace.  The first
  argument is the token read so far.
\<close>

fun split_acc :: "string \<Rightarrow> string \<Rightarrow> string list" where
  "split_acc cur [] = (if cur = [] then [] else [cur])"
| "split_acc cur (c # cs) =
     (if is_space c then (if cur = [] then split_acc [] cs else cur # split_acc [] cs)
      else split_acc (cur @ [c]) cs)"

definition split_ws :: "string \<Rightarrow> string list" where
  "split_ws s = split_acc [] s"

text \<open>\<^verbatim>\<open>s.split(d)\<close> for a one-character separator: always at least one piece.\<close>

fun split_on :: "char \<Rightarrow> string \<Rightarrow> string list" where
  "split_on d [] = [[]]"
| "split_on d (c # cs) =
     (if c = d then [] # split_on d cs
      else (c # hd (split_on d cs)) # tl (split_on d cs))"

text \<open>
  \<^verbatim>\<open>re.sub(r'[^\w\s-]', '', s)\<close> and \<^verbatim>\<open>re.sub(r'\s+', '_', s)\<close>; in the second the
  flag says that the previous character belonged to a run of whitespace that has
  already been replaced.
\<close>

definition remove_special :: "string \<Rightarrow> string" where
  "remove_special s = filter (\<lambda>c. is_word c \<or> is_space c \<or> c = CHR ''-'') s"

fun sub_space_runs :: "bool \<Rightarrow> string \<Rightarrow> string" where
  "sub_space_runs in_run [] = []"
| "sub_space_runs in_run (c # cs) =
     (if is_space c then (if in_run then sub_space_runs True cs
                          else CHR ''_'' # sub_space_runs True cs)
      else c # sub_space_runs False cs)"

definition spaces_to_underscore :: "string \<Rightarrow> string" where
  "spaces_to_underscore s = sub_space_runs False s"

text \<open>The decimal numeral an f-string prints for an integer.\<close>

fun nat_str :: "nat \<Rightarrow> string" where
  "nat_str n =
     (if n < 10 then [''0123456789'' ! n]
      else nat_str (n div 10) @ [''0123456789'' ! (n mod 10)])"

definition int_str :: "int \<Rightarrow> string" where
  "int_str i = (if i < 0 then CHR ''-'' # nat_str (nat (- i)) else nat_str (nat i))"

text \<open>The line feed, and \<^verbatim>\<open>list(range(a, b))\<close> on integers.\<close>

definition newline :: char where
  "newline = CHR 0x0A"


definition py_range :: "int \<Rightarrow> int \<Rightarrow> int list" where
  "py_range a b = [a..b - 1]"

section \<open>The outline strategy: \<^verbatim>\<open>extract_sections_toc.py\<close>\<close>

record toc_entry =
  e_level :: int
  e_title :: string
  e_page :: int
  e_section_id :: string

text \<open>
  \<^verbatim>\<open>section = entry.copy(); section.update({"start_page": .., "end_page": ..,
  "page_count": ..})\<close>: the entry with three more fields.
\<close>

record toc_section = toc_entry +
  b_start_page :: int
  b_end_page :: int
  b_page_count :: int

definition generate_section_id :: "string \<Rightarrow> string" where
  "generate_section_id t =
     (let section_id = strip (remove_special t);
          section_id = lower (spaces_to_underscore section_id);
          section_id = (if section_id \<noteq> [] \<and> is_digit (hd section_id)
                        then ''section_'' @ section_id else section_id)
      in if section_id \<noteq> [] then section_id else ''untitled_section'')"

text \<open>
  The loop of \<^verbatim>\<open>calculate_section_boundaries\<close> over \<^verbatim>\<open>enumerate(toc_entries)\<close>: the
  entry at index \<open>i\<close> is the head of the list, and \<^verbatim>\<open>i + 1 < len(toc_entries)\<close> holds
  exactly when the tail is not empty, its head being \<^verbatim>\<open>toc_entries[i + 1]\<close>.
\<close>

fun calculate_section_boundaries :: "toc_entry list \<Rightarrow> int \<Rightarrow> int \<Rightarrow> toc_section list" where
  "calculate_section_boundaries [] total_pages page_offset = []"
| "calculate_section_boundaries (entry # rest) total_pages page_offset =
     (let start_page0 = e_page entry + page_offset;
          end_page0 = (case rest of
                         nxt # _ \<Rightarrow> e_page nxt + page_offset - 1
                       | [] \<Rightarrow> total_pages);
          start_page1 = max 1 (min start_page0 total_pages);
          end_page1 = max start_page1 (min end_page0 total_pages)
      in toc_entry.extend entry
           (toc_section.fields start_page1 end_page1 (end_page1 - start_page1 + 1))
         # calculate_section_boundaries rest total_pages page_offset)"


text \<open>
  The page renderer \<^verbatim>\<open>pymupdf4llm.to_markdown(pdf_path, pages=.., page_chunks=True)\<close>
  is the external collaborator: for a list of page numbers it returns one text per
  page chunk (\<^verbatim>\<open>page_data.get('text', '')\<close>), or raises, which is \<open>None\<close> here.
\<close>

type_synonym renderer = "int list \<Rightarrow> string list option"

text \<open>
  What \<^verbatim>\<open>fitz\<close> reads from the document: the outline \<^verbatim>\<open>doc.get_toc()\<close> as triples of
  level, title and page, and \<^verbatim>\<open>len(doc)\<close>.  A document that cannot be opened is \<open>None\<close>.
\<close>

record pdf_doc =
  doc_toc :: "(int \<times> string \<times> int) list"
  doc_page_count :: int

definition get_pdf_toc_and_pages :: "pdf_doc option \<Rightarrow> toc_entry list \<times> int" where
  "get_pdf_toc_and_pages doc =
     (case doc of
        None \<Rightarrow> ([], 0)
      | Some d \<Rightarrow>
          (map (\<lambda>(lv, t, p). \<lparr>e_level = lv, e_title = strip t, e_page = p,
                                e_section_id = generate_section_id t\<rparr>) (doc_toc d),
           doc_page_count d))"

text \<open>
  The dictionary \<^verbatim>\<open>section_content\<close>.  The per-page statistics under
  \<^verbatim>\<open>extraction_metadata\<close> are left out; their totals are the two counts.
\<close>

record section_content =
  sc_title :: string
  sc_section_id :: string
  sc_level :: int
  sc_text :: string
  sc_page_range :: string
  sc_start_page :: int
  sc_end_page :: int
  sc_page_count :: int
  sc_character_count :: nat
  sc_word_count :: nat

definition extract_section_content :: "renderer \<Rightarrow> toc_section \<Rightarrow> section_content option" where
  "extract_section_content rd section =
     (let pages_to_extract = py_range (b_start_page section) (b_end_page section + 1)
      in case rd pages_to_extract of
           None \<Rightarrow> None
         | Some result \<Rightarrow>
             if result = [] then None
             else
               let combined_text = concat (map (\<lambda>page_text. page_text @ [newline]) result);
                   total_chars = sum_list (map length result);
                   total_words = sum_list (map (\<lambda>page_text. length (split_ws page_text)) result)
               in Some \<lparr>sc_title = e_title section,
                        sc_section_id = e_section_id section,
                        sc_level = e_level section,
                        sc_text = strip combined_text,
                        sc_page_range =
                          int_str (b_start_page section) @ ''-'' @ int_str (b_end_page section),
                        sc_start_page = b_start_page section,
                        sc_end_page = b_end_page section,
                        sc_page_count = b_page_count section,
                        sc_character_count = total_chars,
                        sc_word_count = total_words\<rparr>)"

text \<open>
  \<^verbatim>\<open>save_section_immediately\<close> of the outline strategy.  A written file is the pair of
  its name inside \<^verbatim>\<open>output_dir\<close> and its content; the first component of the metadata
  block is everything written before \<^verbatim>\<open>section['text']\<close>.
\<close>

definition toc_metadata_block :: "section_content \<Rightarrow> string" where
  "toc_metadata_block section =
     ''# '' @ sc_title section @ [newline, newline]
     @ ''**Pages:** '' @ int_str (sc_start_page section) @ ''-'' @ int_str (sc_end_page section)
       @ '' ('' @ int_str (sc_page_count section) @ '' pages)'' @ [newline]
     @ ''**Characters:** '' @ nat_str (sc_character_count section) @ [newline]
     @ ''**Words:** '' @ nat_str (sc_word_count section) @ [newline]
     @ ''**Section ID:** '' @ sc_section_id section @ [newline]
     @ ''**TOC Level:** '' @ int_str (sc_level section) @ [newline, newline]
     @ ''---'' @ [newline, newline]"

definition save_section_immediately_toc :: "section_content \<Rightarrow> string \<Rightarrow> string \<times> string" where
  "save_section_immediately_toc section pdf_filename =
     (pdf_filename @ ''_section_'' @ sc_section_id section @ ''.md'',
      toc_metadata_block section @ sc_text section)"

record section_metadata =
  md_title :: string
  md_id :: string
  md_start_page :: int
  md_end_page :: int
  md_character_count :: nat
  md_word_count :: nat
  md_file_path :: string
  md_toc_level :: int

record toc_summary =
  ts_pdf_file :: string
  ts_success :: bool
  ts_extraction_method :: string
  ts_total_pages :: int
  ts_sections_found :: nat
  ts_page_offset_applied :: int
  ts_toc_levels_filtered :: "int list option"
  ts_toc_entries_found :: nat
  ts_created_files :: "string list"
  ts_sections :: "section_metadata list"

text \<open>
  The result of \<^verbatim>\<open>extract_sections_by_toc\<close>: the dictionary
  \<^verbatim>\<open>{"error": .., "sections_extracted": ..}\<close> or the summary.
\<close>

datatype toc_result = TocError string nat | TocSummary toc_summary

text \<open>\<^verbatim>\<open>if toc_levels: toc_entries = [entry for entry in toc_entries if entry["level"] in toc_levels]\<close>\<close>

definition filter_toc_levels :: "int list option \<Rightarrow> toc_entry list \<Rightarrow> toc_entry list" where
  "filter_toc_levels toc_levels toc_entries =
     (case toc_levels of
        None \<Rightarrow> toc_entries
      | Some ls \<Rightarrow> if ls = [] then toc_entries
                  else filter (\<lambda>entry. e_level entry \<in> set ls) toc_entries)"

text \<open>
  The loop over the planned sections.  The state is the metadata kept for the summary,
  the names of the files created and the files written so far.
\<close>

fun extract_planned ::
  "renderer \<Rightarrow> string \<Rightarrow> toc_section list \<Rightarrow>
   section_metadata list \<times> string list \<times> (string \<times> string) list \<Rightarrow>
   section_metadata list \<times> string list \<times> (string \<times> string) list" where
  "extract_planned rd pdf_filename [] st = st"
| "extract_planned rd pdf_filename (section # rest) (extracted, created_files, written) =
     (case extract_section_content rd section of
        None \<Rightarrow> extract_planned rd pdf_filename rest (extracted, created_files, written)
      | Some content \<Rightarrow>
          (let saved = save_section_immediately_toc content pdf_filename;
               section_file = fst saved
           in extract_planned rd pdf_filename rest
                (extracted @ [\<lparr>md_title = sc_title content,
                                md_id = sc_section_id content,
                                md_start_page = sc_start_page content,
                                md_end_page = sc_end_page content,
                                md_character_count = sc_character_count content,
                                md_word_count = sc_word_count content,
                                md_file_path = section_file,
                                md_toc_level = sc_level content\<rparr>],
                 created_files @ [section_file],
                 written @ [saved])))"

text \<open>
  \<^verbatim>\<open>extract_sections_by_toc\<close> for a path that exists: its result and the section files it
  wrote.  The summary is also dumped as JSON to \<^verbatim>\<open><pdf>_toc_sections_summary.json\<close>.
\<close>

definition extract_sections_by_toc ::
  "renderer \<Rightarrow> pdf_doc option \<Rightarrow> string \<Rightarrow> int \<Rightarrow> int list option \<Rightarrow>
   toc_result \<times> (string \<times> string) list" where
  "extract_sections_by_toc rd doc pdf_filename page_offset toc_levels =
     (let toc_entries = fst (get_pdf_toc_and_pages doc);
          total_pages = snd (get_pdf_toc_and_pages doc)
      in if toc_entries = [] then (TocError ''No TOC found'' 0, [])
         else
           let toc_entries = filter_toc_levels toc_levels toc_entries;
               sections = calculate_section_boundaries toc_entries total_pages page_offset;
               done = extract_planned rd pdf_filename sections ([], [], [])
           in (TocSummary
                 \<lparr>ts_pdf_file = pdf_filename,
                  ts_success = True,
                  ts_extraction_method = ''toc_based_memory_efficient'',
                  ts_total_pages = total_pages,
                  ts_sections_found = length (fst done),
                  ts_page_offset_applied = page_offset,
                  ts_toc_levels_filtered = toc_levels,
                  ts_toc_entries_found = length toc_entries,
                  ts_created_files = fst (snd done),
                  ts_sections = fst done\<rparr>,
               snd (snd done)))"

text \<open>
  \<^verbatim>\<open>main\<close> of \<^verbatim>\<open>extract_sections_toc.py\<close>, the only caller of its strategy: the exit
  status of the process and the files written.
\<close>

definition main_toc ::
  "renderer \<Rightarrow> pdf_doc option \<Rightarrow> string \<Rightarrow> int \<Rightarrow> int list option \<Rightarrow>
   nat \<times> (string \<times> string) list" where
  "main_toc rd doc pdf_filename page_offset toc_levels =
     (case extract_sections_by_toc rd doc pdf_filename page_offset toc_levels of
        (TocError msg n, written) \<Rightarrow> (1, written)
      | (TocSummary summary, written) \<Rightarrow> (0, written))"

section \<open>The scan strategy: \<^verbatim>\<open>pdf_extractor.py\<close>\<close>

text \<open>
  \<^verbatim>\<open>re.match(r'^#{5}\s+(.+)$', line)\<close> on a line without a line feed (the lines come
  from \<^verbatim>\<open>text.split('\n')\<close>): the group is what follows the whitespace after the five
  hash signs.  When nothing follows, the greedy \<^verbatim>\<open>\s+\<close> gives its last character back
  to the group, which needs two whitespace characters at least.
\<close>

definition match_header :: "string \<Rightarrow> string option" where
  "match_header line =
     (if take 5 line = ''#####'' then
        (let after = drop 5 line;
             ws = takeWhile is_space after;
             rest = dropWhile is_space after
         in if ws = [] then None
            else if rest \<noteq> [] then Some rest
            else if 2 \<le> length ws then Some [last ws]
            else None)
      else None)"

text \<open>The loop of \<^verbatim>\<open>find_section_header_in_text\<close> over \<^verbatim>\<open>enumerate(lines)\<close>, from index \<open>i\<close>.\<close>

fun find_header_from :: "nat \<Rightarrow> string list \<Rightarrow> (string \<times> nat) option" where
  "find_header_from i [] = None"
| "find_header_from i (line # lines) =
     (case match_header (strip line) of
        Some g \<Rightarrow> Some (strip g, i)
      | None \<Rightarrow> find_header_from (Suc i) lines)"

definition find_section_header_in_text :: "string \<Rightarrow> (string \<times> nat) option" where
  "find_section_header_in_text t = find_header_from 0 (split_on newline t)"

record section_info =
  si_section_id :: string
  si_section_title :: string
  si_start_page :: int
  si_end_page :: int
  si_pages :: "int list"
  si_content :: string
  si_character_count :: nat
  si_word_count :: nat
  si_header_found :: bool
  si_pages_in_section :: nat
  si_extraction_method :: string

text \<open>
  \<^verbatim>\<open>for i, page_data in enumerate(result[1:], 1)\<close>: the index of the first page after
  the first one that carries a header, where the loop breaks.
\<close>

fun find_next_header :: "int \<Rightarrow> string list \<Rightarrow> int option" where
  "find_next_header i [] = None"
| "find_next_header i (page_text # rest) =
     (if find_section_header_in_text page_text \<noteq> None then Some i
      else find_next_header (i + 1) rest)"

text \<open>
  The loop over \<^verbatim>\<open>enumerate(extended_result)\<close>, from the pages of \<^verbatim>\<open>extended_pages\<close>
  and the texts still to visit and the current \<^verbatim>\<open>section_end_page\<close>, to the pair of
  \<^verbatim>\<open>section_end_page\<close> and \<^verbatim>\<open>next_section_start\<close>.  When the renderer returns more
  texts than pages were asked for, \<^verbatim>\<open>extended_pages[i]\<close> raises IndexError in either
  branch; the handler around the extension keeps what has been assigned so far.
\<close>

fun extend_search :: "int list \<Rightarrow> string list \<Rightarrow> int \<Rightarrow> int \<times> int option" where
  "extend_search extended_pages [] section_end_page = (section_end_page, None)"
| "extend_search [] (page_text # rest) section_end_page = (section_end_page, None)"
| "extend_search (p # ps) (page_text # rest) section_end_page =
     (if find_section_header_in_text page_text \<noteq> None then (section_end_page, Some p)
      else extend_search ps rest p)"

text \<open>The loop that combines all pages of the section.\<close>

definition combine_pages :: "string list \<Rightarrow> string" where
  "combine_pages final_result =
     foldl (\<lambda>section_content page_text.
              if section_content \<noteq> [] then section_content @ [newline, newline] @ page_text
              else page_text) [] final_result"

definition title_to_id :: "string \<Rightarrow> string" where
  "title_to_id header_title = lower (spaces_to_underscore (strip (remove_special header_title)))"

text \<open>
  The three steps of \<^verbatim>\<open>extract_next_section\<close> that settle \<^verbatim>\<open>section_end_page\<close> and
  \<^verbatim>\<open>next_section_start\<close> (\<open>None\<close> for Python's \<^verbatim>\<open>None\<close>): the scan of the first batch
  after its first page, the extension of the search, and the default when no next
  header was found.  An exception raised by the extended fetch is caught by the inner
  handler and the search goes on without the extension.
\<close>

definition scan_batch :: "int \<Rightarrow> string list \<Rightarrow> int \<times> int option" where
  "scan_batch start_page result =
     (case find_next_header 1 (tl result) of
        None \<Rightarrow> (start_page + int (length result) - 1, None)
      | Some i \<Rightarrow> (start_page + i - 1, Some (start_page + i)))"

definition extend_batch ::
  "renderer \<Rightarrow> int \<Rightarrow> int \<Rightarrow> int \<Rightarrow> int \<times> int option \<Rightarrow> int \<times> int option" where
  "extend_batch rd start_page total_pages initial_batch_size found =
     (let section_end_page = fst found; next_section_start = snd found
      in if next_section_start = None
            \<and> section_end_page = start_page + initial_batch_size - 1
            \<and> section_end_page < total_pages
         then
           (let extended_pages =
                  py_range (section_end_page + 1) (min (total_pages + 1) (section_end_page + 21))
            in if extended_pages \<noteq> [] then
                 (case rd extended_pages of
                    None \<Rightarrow> found
                  | Some extended_result \<Rightarrow>
                      extend_search extended_pages extended_result section_end_page)
               else found)
         else found)"

definition to_end_of_document :: "int \<Rightarrow> int \<times> int option \<Rightarrow> int \<times> int" where
  "to_end_of_document total_pages found =
     (case snd found of
        None \<Rightarrow> (total_pages, total_pages + 1)
      | Some next_section_start \<Rightarrow> (fst found, next_section_start))"

text \<open>
  \<^verbatim>\<open>extract_next_section\<close>.  Every exception the renderer raises in the first fetch or
  in the final one ends in \<^verbatim>\<open>return None, start_page + 1\<close>.
\<close>

definition extract_next_section ::
  "renderer \<Rightarrow> int \<Rightarrow> int \<Rightarrow> int \<Rightarrow> section_info option \<times> int" where
  "extract_next_section rd start_page total_pages look_ahead_pages =
     (if start_page > total_pages then (None, start_page)
      else
        let initial_batch_size = min look_ahead_pages (total_pages - start_page + 1);
            pages_to_extract = py_range start_page (start_page + initial_batch_size)
        in case rd pages_to_extract of
             None \<Rightarrow> (None, start_page + 1)
           | Some result \<Rightarrow>
               if result = [] then (None, start_page + 1)
               else
                 let first_header = find_section_header_in_text (hd result);
                     header_title =
                       (case first_header of
                          None \<Rightarrow> ''Content starting at Page '' @ int_str start_page
                        | Some (t, n) \<Rightarrow> t);
                     section_id =
                       (case first_header of
                          None \<Rightarrow> ''untitled_page_'' @ int_str start_page
                        | Some (t, n) \<Rightarrow> title_to_id t);
                     bounds =
                       to_end_of_document total_pages
                         (extend_batch rd start_page total_pages initial_batch_size
                            (scan_batch start_page result));
                     section_end_page = fst bounds;
                     next_section_start = snd bounds;
                     final_pages = py_range start_page (section_end_page + 1)
                 in case rd final_pages of
                      None \<Rightarrow> (None, start_page + 1)
                    | Some final_result \<Rightarrow>
                        let section_content = combine_pages final_result
                        in (Some \<lparr>si_section_id = section_id,
                                  si_section_title = header_title,
                                  si_start_page = start_page,
                                  si_end_page = section_end_page,
                                  si_pages = final_pages,
                                  si_content = section_content,
                                  si_character_count = length section_content,
                                  si_word_count = length (split_ws section_content),
                                  si_header_found = (first_header \<noteq> None),
                                  si_pages_in_section = length final_pages,
                                  si_extraction_method = ''memory_efficient''\<rparr>,
                            next_section_start))"

text \<open>
  \<^verbatim>\<open>save_section_immediately\<close> of the scan strategy: the name of the file inside
  \<^verbatim>\<open>output_dir\<close> and its content, the metadata block followed by \<^verbatim>\<open>section['content']\<close>.
\<close>

definition scan_metadata_block :: "section_info \<Rightarrow> string" where
  "scan_metadata_block section =
     ''# '' @ si_section_title section @ [newline, newline]
     @ ''**Pages:** '' @ int_str (si_start_page section) @ ''-'' @ int_str (si_end_page section)
       @ '' ('' @ nat_str (length (si_pages section)) @ '' pages)'' @ [newline]
     @ ''**Characters:** '' @ nat_str (si_character_count section) @ [newline]
     @ ''**Words:** '' @ nat_str (si_word_count section) @ [newline]
     @ ''**Section ID:** '' @ si_section_id section @ [newline, newline]
     @ ''---'' @ [newline, newline]"

definition save_section_immediately_scan :: "section_info \<Rightarrow> string \<Rightarrow> string \<times> string" where
  "save_section_immediately_scan section base_filename =
     (let safe_filename = spaces_to_underscore (remove_special (si_section_id section))
      in (base_filename @ ''_section_'' @ safe_filename @ ''.md'',
          scan_metadata_block section @ si_content section))"

record section_summary =
  ss_title :: string
  ss_id :: string
  ss_start_page :: int
  ss_end_page :: int
  ss_character_count :: nat
  ss_word_count :: nat
  ss_file_path :: string

record scan_summary =
  sum_pdf_file :: string
  sum_success :: bool
  sum_total_pages :: int
  sum_start_page :: int
  sum_sections_found :: nat
  sum_sections :: "section_summary list"
  sum_files_created :: "string list"

text \<open>
  The result of \<^verbatim>\<open>extract_all_sections\<close>: the summary, or one of its two dictionaries
  with \<^verbatim>\<open>'success': False\<close>.  \<open>ScanFailure\<close> carries the error message of the early
  return for an empty or unreadable document.  \<open>ScanAborted\<close> is the dictionary built by
  the handler \<^verbatim>\<open>except Exception as e\<close> around the loop and the writing of the summary;
  it carries \<^verbatim>\<open>'sections_processed'\<close>, and its \<^verbatim>\<open>'error'\<close> is the text of the exception.
\<close>

datatype scan_result = ScanFailure string | ScanAborted nat | ScanSummary scan_summary

record scan_state =
  st_sections :: "section_summary list"
  st_created_files :: "string list"
  st_written :: "(string \<times> string) list"

text \<open>
  The \<^verbatim>\<open>while current_page <= total_pages\<close> loop of \<^verbatim>\<open>extract_all_sections\<close>, with its two
  \<^verbatim>\<open>break\<close>s.  \<open>st_written\<close> collects the section files as they are written.
\<close>

function scan_loop ::
  "renderer \<Rightarrow> string \<Rightarrow> int \<Rightarrow> int \<Rightarrow> nat \<Rightarrow> scan_state \<Rightarrow> scan_state" where
  "scan_loop rd pdf_name total_pages current_page section_count st =
     (if current_page \<le> total_pages then
        (case extract_next_section rd current_page total_pages 20 of
           (None, next_page) \<Rightarrow> st
         | (Some section, next_page) \<Rightarrow>
             (let saved = save_section_immediately_scan section pdf_name;
                  section_file = fst saved;
                  section_summary =
                    \<lparr>ss_title = si_section_title section,
                     ss_id = si_section_id section,
                     ss_start_page = si_start_page section,
                     ss_end_page = si_end_page section,
                     ss_character_count = si_character_count section,
                     ss_word_count = si_word_count section,
                     ss_file_path = section_file\<rparr>;
                  st' = \<lparr>st_sections = st_sections st @ [section_summary],
                         st_created_files = st_created_files st @ [section_file],
                         st_written = st_written st @ [saved]\<rparr>
              in if section_count + 1 > 100 then st'
                 else scan_loop rd pdf_name total_pages next_page (section_count + 1) st'))
      else st)"
  by pat_completeness auto
termination
  by (relation "measure (\<lambda>(rd, pdf_name, total_pages, current_page, section_count, st).
                  101 - section_count)") auto

declare scan_loop.simps [simp del]

text \<open>
  \<^verbatim>\<open>extract_all_sections\<close> for a path that exists.  \<open>page_count\<close> is what
  \<^verbatim>\<open>get_pdf_page_count\<close> returned, 0 when the document could not be read.

  The output directory is created by \<^verbatim>\<open>os.makedirs(output_dir, exist_ok=True)\<close> inside
  \<^verbatim>\<open>save_section_immediately\<close> only, so it exists when the summary is written if it
  existed before the run (\<open>output_dir_exists\<close>) or a section has been saved.
  Otherwise \<^verbatim>\<open>open(summary_file, 'w')\<close> raises, and the handler around the loop returns
  the dictionary with \<^verbatim>\<open>'success': False\<close>.  Writing into a directory that exists is
  taken to succeed.

  The name of the summary file is appended to \<^verbatim>\<open>created_files\<close> after the summary
  dictionary has been built around that same list.
\<close>

definition get_pdf_page_count :: "pdf_doc option \<Rightarrow> int" where
  "get_pdf_page_count doc = (case doc of None \<Rightarrow> 0 | Some d \<Rightarrow> doc_page_count d)"

definition extract_all_sections ::
  "renderer \<Rightarrow> pdf_doc option \<Rightarrow> string \<Rightarrow> int \<Rightarrow> bool \<Rightarrow>
   scan_result \<times> (string \<times> string) list" where
  "extract_all_sections rd doc pdf_name start_page output_dir_exists =
     (let total_pages = get_pdf_page_count doc
      in if total_pages = 0 then (ScanFailure ''Could not read PDF or PDF is empty'', [])
         else
           let st = scan_loop rd pdf_name total_pages start_page 0
                      \<lparr>st_sections = [], st_created_files = [], st_written = []\<rparr>
           in if st_written st = [] \<and> \<not> output_dir_exists
              then (ScanAborted (length (st_sections st)), st_written st)
              else
                (ScanSummary
                   \<lparr>sum_pdf_file = pdf_name,
                    sum_success = True,
                    sum_total_pages = total_pages,
                    sum_start_page = start_page,
                    sum_sections_found = length (st_sections st),
                    sum_sections = st_sections st,
                    sum_files_created =
                      st_created_files st @ [pdf_name @ ''_sections_summary.json'']\<rparr>,
                 st_written st))"

text \<open>
  A document given by the texts of its pages 1, 2, ...: the renderer returns the texts
  of the pages asked for, and raises when one of them is in \<open>bad\<close> or is no page of
  the document.
\<close>

definition render_pages :: "string list \<Rightarrow> int set \<Rightarrow> renderer" where
  "render_pages texts bad pages =
     (if list_all (\<lambda>p. 1 \<le> p \<and> p \<le> int (length texts) \<and> p \<notin> bad) pages
      then Some (map (\<lambda>p. texts ! nat (p - 1)) pages) else None)"


section \<open>Notions of the specification\<close>

text \<open>
  The specification's \<open>clamp(x, lo, hi)\<close>.  The lower bound wins when the bounds
  cross; for \<open>lo \<le> hi\<close> this is the usual \<open>min hi (max lo x)\<close>.
\<close>

definition spec_clamp :: "int \<Rightarrow> int \<Rightarrow> int \<Rightarrow> int" where
  "spec_clamp x lo hi = max lo (min x hi)"


text \<open>
  The specification's join of page texts with a separator between consecutive pages
  (Python's \<^verbatim>\<open>sep.join(pages)\<close>).
\<close>

fun spec_join :: "string \<Rightarrow> string list \<Rightarrow> string" where
  "spec_join sep [] = []"
| "spec_join sep [x] = x"
| "spec_join sep (x # y # ys) = x @ sep @ spec_join sep (y # ys)"

section \<open>The cursor of the scan strategy\<close>

lemma find_next_header_bounds:
  "find_next_header i xs = Some j \<Longrightarrow> i \<le> j \<and> j < i + int (length xs)"
  by (induction i xs rule: find_next_header.induct) (auto split: if_splits)

lemma extend_search_member:
  "extend_search ps rs e = (e', Some n) \<Longrightarrow> n \<in> set ps"
  by (induction ps rs e rule: extend_search.induct) (auto split: if_splits)

lemma py_range_lower: "p \<in> set (py_range a b) \<Longrightarrow> a \<le> p \<and> p < b"
  by (auto simp: py_range_def)

lemma scan_batch_next:
  "snd (scan_batch s result) = Some n \<Longrightarrow> s < n"
  by (auto simp: scan_batch_def split: option.splits dest: find_next_header_bounds)

lemma scan_batch_end:
  "result \<noteq> [] \<Longrightarrow> snd (scan_batch s result) = None \<Longrightarrow> s \<le> fst (scan_batch s result)"
  by (auto simp: scan_batch_def split: option.splits)

lemma extend_batch_next:
  assumes "result \<noteq> []" "snd (extend_batch rd s tp w (scan_batch s result)) = Some n"
  shows "s < n"
proof (cases "snd (scan_batch s result)")
  case (Some m)
  then have "extend_batch rd s tp w (scan_batch s result) = scan_batch s result"
    by (simp add: extend_batch_def Let_def)
  with assms Some show ?thesis by (simp add: scan_batch_next)
next
  case None
  let ?e = "fst (scan_batch s result)"
  have e: "s \<le> ?e" using assms(1) None by (rule scan_batch_end)
  let ?ps = "py_range (?e + 1) (min (tp + 1) (?e + 21))"
  show ?thesis
  proof (cases "rd ?ps")
    case rdNone: None
    with assms(2) None show ?thesis by (simp add: extend_batch_def Let_def split: if_splits)
  next
    case (Some rs)
    with assms(2) None have "snd (extend_search ?ps rs ?e) = Some n"
      by (simp add: extend_batch_def Let_def split: if_splits)
    then have "n \<in> set ?ps"
      using extend_search_member [of ?ps rs ?e "fst (extend_search ?ps rs ?e)" n]
      by (metis prod.collapse)
    then have "?e + 1 \<le> n" by (auto dest: py_range_lower)
    with e show ?thesis by simp
  qed
qed

lemma extract_next_section_advances:
  assumes "start_page \<le> total_pages"
  shows "start_page < snd (extract_next_section rd start_page total_pages look_ahead_pages)"
proof -
  let ?w = "min look_ahead_pages (total_pages - start_page + 1)"
  show ?thesis
  proof (cases "rd (py_range start_page (start_page + ?w))")
    case None
    with assms show ?thesis by (simp add: extract_next_section_def Let_def)
  next
    case (Some result)
    show ?thesis
    proof (cases "result = []")
      case True
      with Some assms show ?thesis by (simp add: extract_next_section_def Let_def)
    next
      case False
      let ?b = "to_end_of_document total_pages
                  (extend_batch rd start_page total_pages ?w (scan_batch start_page result))"
      have b: "start_page < snd ?b"
        using extend_batch_next [OF False, of rd start_page total_pages ?w] assms
        by (auto simp: to_end_of_document_def split: option.splits)
      show ?thesis
      proof (cases "rd (py_range start_page (fst ?b + 1))")
        case None
        with Some False assms show ?thesis
          by (simp add: extract_next_section_def Let_def)
      next
        case final: (Some final_result)
        with Some False assms b show ?thesis
          by (simp add: extract_next_section_def Let_def)
      qed
    qed
  qed
qed

lemma scan_loop_sections_bound_cursor:
  "length (st_sections (scan_loop rd pdf_name total_pages current_page section_count st))
     \<le> length (st_sections st) + nat (total_pages + 1 - current_page)"
proof (induction rd pdf_name total_pages current_page section_count st rule: scan_loop.induct)
  case (1 rd pdf_name total_pages current_page section_count st)
  show ?case
  proof (cases "current_page \<le> total_pages")
    case False
    then show ?thesis by (simp add: scan_loop.simps [of rd pdf_name total_pages current_page])
  next
    case True
    obtain sec nxt where r: "extract_next_section rd current_page total_pages 20 = (sec, nxt)"
      by (cases "extract_next_section rd current_page total_pages 20")
    have adv: "current_page < nxt"
      using extract_next_section_advances [OF True, of rd 20] r by simp
    show ?thesis
    proof (cases sec)
      case None
      with True r show ?thesis
        by (simp add: scan_loop.simps [of rd pdf_name total_pages current_page])
    next
      case (Some sect)
      show ?thesis
      proof (cases "section_count + 1 > 100")
        case stop: True
        with True r Some show ?thesis
          by (simp add: scan_loop.simps [of rd pdf_name total_pages current_page] Let_def)
      next
        case go: False
        note ih = "1.IH" [OF True r [symmetric] Some refl refl refl refl go]
        from True r Some go ih adv show ?thesis
          by (simp add: scan_loop.simps [of rd pdf_name total_pages current_page] Let_def)
      qed
    qed
  qed
qed

section \<open>One window of the scan strategy\<close>

lemma find_next_header_first:
  "j < length xs \<Longrightarrow> find_section_header_in_text (xs ! j) \<noteq> None \<Longrightarrow>
   (\<forall>k < j. find_section_header_in_text (xs ! k) = None) \<Longrightarrow>
   find_next_header i xs = Some (i + int j)"
proof (induction xs arbitrary: i j)
  case Nil
  then show ?case by simp
next
  case (Cons x xs)
  show ?case
  proof (cases j)
    case 0
    with Cons.prems show ?thesis by simp
  next
    case (Suc m)
    from Cons.prems(3) Suc have x: "find_section_header_in_text x = None" by auto
    have "find_next_header (i + 1) xs = Some (i + 1 + int m)"
    proof (rule Cons.IH)
      show "m < length xs" using Cons.prems(1) Suc by simp
      show "find_section_header_in_text (xs ! m) \<noteq> None" using Cons.prems(2) Suc by simp
      show "\<forall>k < m. find_section_header_in_text (xs ! k) = None"
        using Cons.prems(3) Suc by auto
    qed
    with x Suc show ?thesis by simp
  qed
qed


lemma scan_batch_boundary:
  assumes "0 < j" "j < length result"
    and "find_section_header_in_text (result ! j) \<noteq> None"
    and "\<forall>k. 0 < k \<and> k < j \<longrightarrow> find_section_header_in_text (result ! k) = None"
  shows "scan_batch s result = (s + int j - 1, Some (s + int j))"
proof -
  from assms(1,2) obtain x xs where r: "result = x # xs" by (cases result) auto
  from assms(1) obtain m where j: "j = Suc m" by (cases j) auto
  have "find_next_header 1 xs = Some (1 + int m)"
  proof (rule find_next_header_first)
    show "m < length xs" using assms(2) r j by simp
    show "find_section_header_in_text (xs ! m) \<noteq> None" using assms(3) r j by simp
    show "\<forall>k < m. find_section_header_in_text (xs ! k) = None"
    proof (intro allI impI)
      fix k assume "k < m"
      then have "0 < Suc k \<and> Suc k < j" using j by simp
      with assms(4) have "find_section_header_in_text (result ! Suc k) = None" by blast
      then show "find_section_header_in_text (xs ! k) = None" using r by simp
    qed
  qed
  then show ?thesis by (simp add: scan_batch_def r j)
qed

lemma extend_batch_found:
  "snd found \<noteq> None \<Longrightarrow> extend_batch rd s tp w found = found"
  by (auto simp: extend_batch_def Let_def)

lemma extract_next_section_title:
  assumes "rd (py_range start_page
             (start_page + min look_ahead_pages (total_pages - start_page + 1))) = Some result"
    and "extract_next_section rd start_page total_pages look_ahead_pages = (Some sec, nxt)"
  shows "si_start_page sec = start_page
     \<and> si_section_title sec =
         (case find_section_header_in_text (hd result) of
            None \<Rightarrow> ''Content starting at Page '' @ int_str start_page
          | Some (t, n) \<Rightarrow> t)
     \<and> si_section_id sec =
         (case find_section_header_in_text (hd result) of
            None \<Rightarrow> ''untitled_page_'' @ int_str start_page
          | Some (t, n) \<Rightarrow> title_to_id t)"
  using assms
  by (auto simp: extract_next_section_def Let_def split: if_splits option.splits)

lemma extract_next_section_boundary:
  assumes "start_page \<le> total_pages"
    and "rd (py_range start_page
             (start_page + min look_ahead_pages (total_pages - start_page + 1))) = Some result"
    and "0 < j" "j < length result"
    and "find_section_header_in_text (result ! j) \<noteq> None"
    and "\<forall>k. 0 < k \<and> k < j \<longrightarrow> find_section_header_in_text (result ! k) = None"
    and "rd (py_range start_page (start_page + int j)) = Some final_result"
  shows "\<exists>sec. extract_next_section rd start_page total_pages look_ahead_pages
                 = (Some sec, start_page + int j)
     \<and> si_end_page sec = start_page + int j - 1
     \<and> si_pages sec = py_range start_page (start_page + int j)"
proof -
  have ne: "result \<noteq> []" using assms(4) by auto
  have sb: "scan_batch start_page result = (start_page + int j - 1, Some (start_page + int j))"
    using assms(3-6) by (rule scan_batch_boundary)
  have eb: "extend_batch rd start_page total_pages
              (min look_ahead_pages (total_pages - start_page + 1)) (scan_batch start_page result)
            = (start_page + int j - 1, Some (start_page + int j))"
    by (simp add: sb extend_batch_found)
  show ?thesis
    using assms(1,2,7) ne
    by (simp add: extract_next_section_def Let_def eb to_end_of_document_def)
qed

lemma scenario_D_run:
  "(case fst (extract_all_sections
        (render_pages [''##### A'', ''text'', ''##### B'' @ [newline] @ ''##### C''] {})
        (Some \<lparr>doc_toc = [], doc_page_count = 3\<rparr>) ''doc'' 1 output_dir_exists) of
      ScanSummary sm \<Rightarrow>
        map (\<lambda>s. (ss_start_page s, ss_end_page s)) (sum_sections sm) = [(1, 2), (3, 3)]
    | ScanAborted n \<Rightarrow> False
    | ScanFailure msg \<Rightarrow> False)"
proof (cases output_dir_exists)
  case True
  then have e: "output_dir_exists = True" by simp
  show ?thesis unfolding e by code_simp
next
  case False
  then have e: "output_dir_exists = False" by simp
  show ?thesis unfolding e by code_simp
qed

lemma scenario_D_window:
  "render_pages [''##### A'', ''text'', ''##### B'' @ [newline] @ ''##### C''] {}
     (py_range 1 (1 + min 20 (3 - 1 + 1)))
   = Some [''##### A'', ''text'', ''##### B'' @ [newline] @ ''##### C'']"
  by code_simp

lemma scenario_D_headers:
  "find_section_header_in_text (''##### B'' @ [newline] @ ''##### C'') = Some (''B'', 0)"
  "find_section_header_in_text ''text'' = None"
  "find_section_header_in_text ''##### A'' = Some (''A'', 0)"
  by code_simp+

section \<open>The loop of the scan strategy\<close>


lemma scan_loop_keeps_sections:
  "\<exists>more. st_sections (scan_loop rd pdf_name total_pages current_page section_count st)
            = st_sections st @ more"
proof (induction rd pdf_name total_pages current_page section_count st rule: scan_loop.induct)
  case (1 rd pdf_name total_pages current_page section_count st)
  show ?case
  proof (cases "current_page \<le> total_pages")
    case False
    then show ?thesis by (simp add: scan_loop.simps [of rd pdf_name total_pages current_page])
  next
    case True
    obtain sec nxt where r: "extract_next_section rd current_page total_pages 20 = (sec, nxt)"
      by (cases "extract_next_section rd current_page total_pages 20")
    show ?thesis
    proof (cases sec)
      case None
      with True r show ?thesis
        by (simp add: scan_loop.simps [of rd pdf_name total_pages current_page])
    next
      case (Some sect)
      show ?thesis
      proof (cases "section_count + 1 > 100")
        case stop: True
        with True r Some show ?thesis
          by (simp add: scan_loop.simps [of rd pdf_name total_pages current_page] Let_def)
      next
        case go: False
        note ih = "1.IH" [OF True r [symmetric] Some refl refl refl refl go]
        from True r Some go ih show ?thesis
          by (auto simp: scan_loop.simps [of rd pdf_name total_pages current_page] Let_def)
      qed
    qed
  qed
qed







section \<open>The extension of the search\<close>













section \<open>Counting and joining texts\<close>

lemma is_space_newline: "is_space newline"
  by (simp add: is_space_def newline_def)

lemma split_acc_space:
  "is_space c \<Longrightarrow> split_acc cur (xs @ c # ys) = split_acc cur xs @ split_acc [] ys"
  by (induction xs arbitrary: cur) auto

lemma split_ws_line:
  "split_ws (p @ newline # rest) = split_ws p @ split_ws rest"
  by (simp add: split_ws_def split_acc_space is_space_newline)

lemma word_count_of_pages:
  "length (split_ws (concat (map (\<lambda>page_text. page_text @ [newline]) result)))
     = sum_list (map (\<lambda>page_text. length (split_ws page_text)) result)"
proof (induction result)
  case Nil
  then show ?case by (simp add: split_ws_def)
next
  case (Cons p ps)
  then show ?case by (simp add: split_ws_line)
qed

lemma split_acc_only_spaces:
  "(\<forall>c \<in> set ws. is_space c) \<Longrightarrow> split_acc cur ws = (if cur = [] then [] else [cur])"
  by (induction ws arbitrary: cur) auto

lemma split_acc_trailing:
  "(\<forall>c \<in> set ws. is_space c) \<Longrightarrow> split_acc cur (xs @ ws) = split_acc cur xs"
  by (induction xs arbitrary: cur) (auto simp: split_acc_only_spaces)

lemma split_acc_leading: "split_acc [] (dropWhile is_space s) = split_acc [] s"
  by (induction s) auto

lemma split_ws_strip: "split_ws (strip s) = split_ws s"
proof -
  let ?t = "dropWhile is_space s"
  have "?t = rev (dropWhile is_space (rev ?t)) @ rev (takeWhile is_space (rev ?t))"
    by (metis rev_append rev_rev_ident takeWhile_dropWhile_id)
  moreover have "\<forall>c \<in> set (rev (takeWhile is_space (rev ?t))). is_space c"
    by (auto dest: set_takeWhileD)
  ultimately have "split_acc [] ?t = split_acc [] (rev (dropWhile is_space (rev ?t)))"
    by (metis split_acc_trailing)
  then show ?thesis by (simp add: split_ws_def strip_def split_acc_leading)
qed

lemma dropWhile_all: "(\<forall>x \<in> set xs. P x) \<Longrightarrow> dropWhile P xs = []"
  by (induction xs) auto

lemma strip_trailing_space: "is_space c \<Longrightarrow> strip (xs @ [c]) = strip xs"
proof (cases "\<forall>x \<in> set xs. is_space x")
  case True
  assume "is_space c"
  with True have "\<forall>x \<in> set (xs @ [c]). is_space x" by simp
  then have "dropWhile is_space (xs @ [c]) = []" by (rule dropWhile_all)
  moreover from True have "dropWhile is_space xs = []" by (rule dropWhile_all)
  ultimately show ?thesis unfolding strip_def by (simp only:)
next
  case False
  assume c: "is_space c"
  from False have "dropWhile is_space (xs @ [c]) = dropWhile is_space xs @ [c]"
    by (auto simp: dropWhile_append1)
  with c show ?thesis by (simp add: strip_def)
qed

lemma concat_lines:
  "result \<noteq> [] \<Longrightarrow>
   concat (map (\<lambda>page_text. page_text @ [newline]) result) = spec_join [newline] result @ [newline]"
  by (induction result rule: spec_join.induct [of _ "[newline]"]) auto

lemma foldl_combine_nonempty:
  "acc \<noteq> [] \<Longrightarrow>
   foldl (\<lambda>section_content page_text.
            if section_content \<noteq> [] then section_content @ [newline, newline] @ page_text
            else page_text) acc ps
   = acc @ concat (map (\<lambda>p. [newline, newline] @ p) ps)"
  by (induction ps arbitrary: acc) auto

lemma spec_join_Cons:
  "spec_join sep (p # ps) = p @ concat (map (\<lambda>q. sep @ q) ps)"
  by (induction ps arbitrary: p) auto

lemma combine_pages_join:
  "combine_pages final_result
     = spec_join [newline, newline] (dropWhile (\<lambda>page_text. page_text = []) final_result)"
proof (induction final_result)
  case Nil
  then show ?case by (simp add: combine_pages_def)
next
  case (Cons p ps)
  show ?case
  proof (cases "p = []")
    case True
    with Cons show ?thesis by (simp add: combine_pages_def)
  next
    case False
    then show ?thesis
      by (simp add: combine_pages_def foldl_combine_nonempty spec_join_Cons)
  qed
qed

lemma extract_next_section_content:
  "extract_next_section rd start_page total_pages look_ahead_pages = (Some sec, nxt) \<Longrightarrow>
   si_character_count sec = length (si_content sec)
   \<and> si_word_count sec = length (split_ws (si_content sec))
   \<and> (\<exists>final_result. rd (si_pages sec) = Some final_result
          \<and> si_content sec = combine_pages final_result)"
  by (auto simp: extract_next_section_def Let_def split: if_splits option.splits)

lemma extract_section_content_text:
  assumes "extract_section_content rd section = Some sc"
  shows "\<exists>result. rd (py_range (b_start_page section) (b_end_page section + 1)) = Some result
      \<and> result \<noteq> []
      \<and> sc_text sc = strip (concat (map (\<lambda>page_text. page_text @ [newline]) result))
      \<and> sc_text sc = strip (spec_join [newline] result)
      \<and> sc_character_count sc = sum_list (map length result)
      \<and> sc_word_count sc = length (split_ws (sc_text sc))"
proof -
  from assms obtain result where
    r: "rd (py_range (b_start_page section) (b_end_page section + 1)) = Some result"
    and ne: "result \<noteq> []"
    and t: "sc_text sc = strip (concat (map (\<lambda>page_text. page_text @ [newline]) result))"
    and c: "sc_character_count sc = sum_list (map length result)"
    and w: "sc_word_count sc = sum_list (map (\<lambda>page_text. length (split_ws page_text)) result)"
    by (auto simp: extract_section_content_def Let_def split: if_splits option.splits)
  have j: "sc_text sc = strip (spec_join [newline] result)"
    unfolding t concat_lines [OF ne] by (rule strip_trailing_space [OF is_space_newline])
  have "length (split_ws (sc_text sc))
      = length (split_ws (concat (map (\<lambda>page_text. page_text @ [newline]) result)))"
    unfolding t by (simp only: split_ws_strip)
  with w have "sc_word_count sc = length (split_ws (sc_text sc))"
    by (simp only: word_count_of_pages)
  with r ne t j c show ?thesis by blast
qed


section \<open>The empty outline\<close>

text \<open>
  Claim C2, as the claim states it, fails: nothing falls back to the scan strategy.  For
  a one-page document with an empty outline and a heading marker on its page, the
  program of the outline strategy exits with status 1 and has written no file, while
  the scan strategy writes a section for the same document.
\<close>

theorem no_outline_fallback_counterexample:
  "main_toc (render_pages [''##### A''] {}) (Some \<lparr>doc_toc = [], doc_page_count = 1\<rparr>)
     ''doc'' 0 None = (1, [])
   \<and> snd (extract_all_sections (render_pages [''##### A''] {})
            (Some \<lparr>doc_toc = [], doc_page_count = 1\<rparr>) ''doc'' 1 False) \<noteq> []
   \<and> snd (extract_all_sections (render_pages [''##### A''] {})
            (Some \<lparr>doc_toc = [], doc_page_count = 1\<rparr>) ''doc'' 1 True) \<noteq> []"
  by code_simp

text \<open>
  Claim C2, amended.  For every document whose outline is empty, the outline strategy
  fails with the error "No TOC found" and zero sections extracted, before it renders a
  page or writes a file, and its program exits with status 1.
\<close>

theorem empty_outline_is_an_error:
  "doc = Some d \<Longrightarrow> doc_toc d = [] \<Longrightarrow>
   extract_sections_by_toc rd doc pdf_filename page_offset toc_levels
     = (TocError ''No TOC found'' 0, [])
   \<and> main_toc rd doc pdf_filename page_offset toc_levels = (1, [])"
  by (simp add: main_toc_def extract_sections_by_toc_def get_pdf_toc_and_pages_def)

theorem empty_outline_is_an_error_witness:
  "extract_sections_by_toc (render_pages [''##### A''] {})
     (Some \<lparr>doc_toc = [], doc_page_count = 1\<rparr>) ''doc'' 0 None
     = (TocError ''No TOC found'' 0, [])
   \<and> main_toc (render_pages [''##### A''] {}) (Some \<lparr>doc_toc = [], doc_page_count = 1\<rparr>)
       ''doc'' 0 None = (1, [])"
  using empty_outline_is_an_error
    [of "Some \<lparr>doc_toc = [], doc_page_count = 1\<rparr>" "\<lparr>doc_toc = [], doc_page_count = 1\<rparr>"
        "render_pages [''##### A''] {}" "''doc''" 0 None]
  by simp


section \<open>A renderer error in the scan strategy\<close>

text \<open>
  Claim C1 says that a renderer error at the window of a page \<open>s\<close> is caught, recorded
  as a skip in the manifest, and that the run goes on at page \<open>s + 1\<close>.  The code
  catches the error and returns the next start page \<open>s + 1\<close>, but its loop reads the
  missing section as the end of the document and stops.  In a document of three pages
  whose first page cannot be rendered, \<^verbatim>\<open>extract_next_section\<close> at page 1 returns no
  section and the next start page 2; the run from page 1 then ends with a summary that
  lists no section and holds no note of the failure (with a failure when the output
  directory did not exist), and it writes no file, although the run from page 2 writes a
  section.
\<close>

theorem renderer_error_stops_the_run:
  "extract_next_section (render_pages [''x'', ''##### B'', ''y''] {1}) 1 3 20 = (None, 2)
   \<and> fst (extract_all_sections (render_pages [''x'', ''##### B'', ''y''] {1})
         (Some \<lparr>doc_toc = [], doc_page_count = 3\<rparr>) ''doc'' 1 True)
     = ScanSummary \<lparr>sum_pdf_file = ''doc'', sum_success = True, sum_total_pages = 3,
         sum_start_page = 1, sum_sections_found = 0, sum_sections = [],
         sum_files_created = [''doc_sections_summary.json'']\<rparr>
   \<and> snd (extract_all_sections (render_pages [''x'', ''##### B'', ''y''] {1})
         (Some \<lparr>doc_toc = [], doc_page_count = 3\<rparr>) ''doc'' 1 True) = []
   \<and> extract_all_sections (render_pages [''x'', ''##### B'', ''y''] {1})
         (Some \<lparr>doc_toc = [], doc_page_count = 3\<rparr>) ''doc'' 1 False = (ScanAborted 0, [])
   \<and> snd (extract_all_sections (render_pages [''x'', ''##### B'', ''y''] {1})
         (Some \<lparr>doc_toc = [], doc_page_count = 3\<rparr>) ''doc'' 2 True) \<noteq> []"
  by code_simp


section \<open>Character and word counts\<close>

text \<open>
  Claim C3 says that the character count recorded for a section is the length of the
  text written after the metadata block.  The scan strategy does this; the outline
  strategy does not.  For an outline entry over two pages with the texts "a" and "b" the
  file written by the outline strategy records 2 characters, the sum of the lengths of
  the two pages, while the text written after the metadata block, "a", a line feed and
  "b", has 3.  For the same two pages the scan strategy records 4 characters for its
  content of 4 characters.
\<close>

theorem outline_character_count_differs:
  "snd (extract_sections_by_toc (render_pages [''a'', ''b''] {})
         (Some \<lparr>doc_toc = [(1, ''T'', 1)], doc_page_count = 2\<rparr>) ''doc'' 0 None)
     = [(''doc_section_t.md'',
         ''# T'' @ [newline, newline]
         @ ''**Pages:** 1-2 (2 pages)'' @ [newline]
         @ ''**Characters:** 2'' @ [newline]
         @ ''**Words:** 2'' @ [newline]
         @ ''**Section ID:** t'' @ [newline]
         @ ''**TOC Level:** 1'' @ [newline, newline]
         @ ''---'' @ [newline, newline]
         @ ''a'' @ [newline] @ ''b'')]
   \<and> length (''a'' @ [newline] @ ''b'') = 3
   \<and> map_option si_character_count
         (fst (extract_next_section (render_pages [''a'', ''b''] {}) 1 2 20)) = Some 4
   \<and> map_option si_content
         (fst (extract_next_section (render_pages [''a'', ''b''] {}) 1 2 20))
       = Some (''a'' @ [newline, newline] @ ''b'')"
  by code_simp


section \<open>The reach of the search for the next marker\<close>





section \<open>The safety bound of the scan strategy\<close>




section \<open>The planned ranges of the outline strategy\<close>

lemma length_calculate_section_boundaries:
  "length (calculate_section_boundaries es tp off) = length es"
  by (induction es) (simp_all add: Let_def)

lemma start_page_extend:
  "b_start_page (toc_entry.extend e (toc_section.fields s t c)) = s"
  by (simp add: toc_entry.extend_def toc_section.fields_def toc_entry.defs toc_section.defs)

lemma end_page_extend:
  "b_end_page (toc_entry.extend e (toc_section.fields s t c)) = t"
  by (simp add: toc_entry.extend_def toc_section.fields_def toc_entry.defs toc_section.defs)

lemma start_page_boundaries:
  "i < length es \<Longrightarrow>
   b_start_page (calculate_section_boundaries es tp off ! i)
     = max 1 (min (e_page (es ! i) + off) tp)"
proof (induction es arbitrary: i)
  case Nil
  then show ?case by simp
next
  case (Cons e es)
  show ?case
  proof (cases i)
    case 0
    then show ?thesis by (simp add: Let_def start_page_extend)
  next
    case (Suc j)
    with Cons show ?thesis by (simp add: Let_def)
  qed
qed

lemma end_page_boundaries_inner:
  "Suc i < length es \<Longrightarrow>
   b_end_page (calculate_section_boundaries es tp off ! i)
     = max (b_start_page (calculate_section_boundaries es tp off ! i))
           (min (e_page (es ! Suc i) + off - 1) tp)"
proof (induction es arbitrary: i)
  case Nil
  then show ?case by simp
next
  case (Cons e es)
  show ?case
  proof (cases i)
    case 0
    with Cons.prems obtain e' es' where "es = e' # es'" by (cases es) auto
    with 0 show ?thesis by (simp add: Let_def start_page_extend end_page_extend)
  next
    case (Suc j)
    with Cons show ?thesis by (simp add: Let_def)
  qed
qed

lemma end_page_boundaries_last:
  "Suc i = length es \<Longrightarrow>
   b_end_page (calculate_section_boundaries es tp off ! i)
     = max (b_start_page (calculate_section_boundaries es tp off ! i)) tp"
proof (induction es arbitrary: i)
  case Nil
  then show ?case by simp
next
  case (Cons e es)
  show ?case
  proof (cases i)
    case 0
    with Cons.prems have "es = []" by simp
    with 0 show ?thesis by (simp add: Let_def start_page_extend end_page_extend)
  next
    case (Suc j)
    with Cons.prems have "Suc j = length es" by simp
    from Cons.IH [OF this] show ?thesis unfolding Suc by (simp add: Let_def)
  qed
qed

text \<open>
  Claim C7.  For every entry \<open>i\<close> of the (possibly level-filtered) outline the planned
  start page is \<open>clamp(page\<^sub>i + offset, 1, totalPages)\<close>; the end page is
  \<open>clamp(page\<^sub>i\<^sub>+\<^sub>1 + offset - 1, startPage, totalPages)\<close> for every entry but the last and
  \<open>totalPages\<close> for the last one (of a document with at least one page); the start page
  never exceeds the end page, whatever the page numbers; and an outline at pages 1, 10,
  25 of a 30-page document with offset 0 gives the ranges [1,9], [10,24], [25,30].
\<close>

theorem outline_boundaries_are_clamped:
  "length (calculate_section_boundaries es tp off) = length es
   \<and> (\<forall>i < length es.
        b_start_page (calculate_section_boundaries es tp off ! i)
          = spec_clamp (e_page (es ! i) + off) 1 tp
      \<and> (Suc i < length es \<longrightarrow>
           b_end_page (calculate_section_boundaries es tp off ! i)
             = spec_clamp (e_page (es ! Suc i) + off - 1)
                 (b_start_page (calculate_section_boundaries es tp off ! i)) tp)
      \<and> (Suc i = length es \<longrightarrow> 1 \<le> tp \<longrightarrow>
           b_end_page (calculate_section_boundaries es tp off ! i) = tp)
      \<and> b_start_page (calculate_section_boundaries es tp off ! i)
          \<le> b_end_page (calculate_section_boundaries es tp off ! i))
   \<and> (map e_page es = [1, 10, 25] \<longrightarrow>
        map (\<lambda>s. (b_start_page s, b_end_page s)) (calculate_section_boundaries es 30 0)
          = [(1, 9), (10, 24), (25, 30)])"
proof (intro conjI allI impI)
  show "length (calculate_section_boundaries es tp off) = length es"
    by (rule length_calculate_section_boundaries)
next
  fix i assume "i < length es"
  then show "b_start_page (calculate_section_boundaries es tp off ! i)
      = spec_clamp (e_page (es ! i) + off) 1 tp"
    by (simp add: start_page_boundaries spec_clamp_def)
next
  fix i assume "Suc i < length es"
  then show "b_end_page (calculate_section_boundaries es tp off ! i)
      = spec_clamp (e_page (es ! Suc i) + off - 1)
          (b_start_page (calculate_section_boundaries es tp off ! i)) tp"
    by (simp add: end_page_boundaries_inner spec_clamp_def)
next
  fix i assume i: "i < length es" and l: "Suc i = length es" and t: "1 \<le> tp"
  have "b_start_page (calculate_section_boundaries es tp off ! i) \<le> tp"
    using i t by (simp add: start_page_boundaries)
  then show "b_end_page (calculate_section_boundaries es tp off ! i) = tp"
    using l by (simp add: end_page_boundaries_last)
next
  fix i assume i: "i < length es"
  show "b_start_page (calculate_section_boundaries es tp off ! i)
      \<le> b_end_page (calculate_section_boundaries es tp off ! i)"
  proof (cases "Suc i < length es")
    case True
    then show ?thesis by (simp add: end_page_boundaries_inner)
  next
    case False
    with i have "Suc i = length es" by simp
    then show ?thesis by (simp add: end_page_boundaries_last)
  qed
next
  assume "map e_page es = [1, 10, 25]"
  then obtain a b c where es: "es = [a, b, c]" and p: "e_page a = 1" "e_page b = 10" "e_page c = 25"
    by (auto simp: map_eq_Cons_conv)
  show "map (\<lambda>s. (b_start_page s, b_end_page s)) (calculate_section_boundaries es 30 0)
      = [(1, 9), (10, 24), (25, 30)]"
    by (simp add: es p Let_def start_page_extend end_page_extend)
qed

theorem outline_boundaries_are_clamped_witness:
  "map (\<lambda>s. (b_start_page s, b_end_page s))
     (calculate_section_boundaries
        [\<lparr>e_level = 1, e_title = ''A'', e_page = 1, e_section_id = ''a''\<rparr>,
         \<lparr>e_level = 2, e_title = ''B'', e_page = 10, e_section_id = ''b''\<rparr>,
         \<lparr>e_level = 1, e_title = ''C'', e_page = 25, e_section_id = ''c''\<rparr>] 30 0)
   = [(1, 9), (10, 24), (25, 30)]"
  using outline_boundaries_are_clamped
    [of "[\<lparr>e_level = 1, e_title = ''A'', e_page = 1, e_section_id = ''a''\<rparr>,
          \<lparr>e_level = 2, e_title = ''B'', e_page = 10, e_section_id = ''b''\<rparr>,
          \<lparr>e_level = 1, e_title = ''C'', e_page = 25, e_section_id = ''c''\<rparr>]" 30 0]
  by simp


section \<open>The coverage of the outline strategy\<close>

text \<open>
  Claim C5, as the claim states it, fails.  The first range starts at the first entry's
  page, not at page 1: an outline whose only entry is on page 5 of a 10-page document
  plans the single range [5, 10].  And a page number beyond the last page makes two
  ranges overlap without being out of order or a duplicate: entries on pages 1 and 40
  of a 30-page document plan [1, 30] and [30, 30].
\<close>

theorem outline_coverage_counterexample:
  "map b_start_page (calculate_section_boundaries
       [\<lparr>e_level = 1, e_title = ''A'', e_page = 5, e_section_id = ''a''\<rparr>] 10 0) = [5]
   \<and> map b_end_page (calculate_section_boundaries
       [\<lparr>e_level = 1, e_title = ''A'', e_page = 5, e_section_id = ''a''\<rparr>] 10 0) = [10]
   \<and> map b_start_page (calculate_section_boundaries
       [\<lparr>e_level = 1, e_title = ''A'', e_page = 1, e_section_id = ''a''\<rparr>,
        \<lparr>e_level = 1, e_title = ''B'', e_page = 40, e_section_id = ''b''\<rparr>] 30 0) = [1, 30]
   \<and> map b_end_page (calculate_section_boundaries
       [\<lparr>e_level = 1, e_title = ''A'', e_page = 1, e_section_id = ''a''\<rparr>,
        \<lparr>e_level = 1, e_title = ''B'', e_page = 40, e_section_id = ''b''\<rparr>] 30 0) = [30, 30]"
  by (simp add: Let_def start_page_extend end_page_extend)

lemma union_of_planned_ranges:
  "es \<noteq> [] \<Longrightarrow> sorted_wrt (<) (map e_page es) \<Longrightarrow>
   (\<forall>e \<in> set es. 1 \<le> e_page e + off \<and> e_page e + off \<le> tp) \<Longrightarrow>
   (\<Union>s \<in> set (calculate_section_boundaries es tp off). {b_start_page s..b_end_page s})
     = {e_page (hd es) + off..tp}"
proof (induction es)
  case Nil
  then show ?case by simp
next
  case (Cons e es)
  show ?case
  proof (cases es)
    case Nil
    with Cons.prems show ?thesis
      by (simp add: Let_def start_page_extend end_page_extend)
  next
    case (Cons e' es')
    with Cons.prems Cons.IH have
      ih: "(\<Union>s \<in> set (calculate_section_boundaries es tp off). {b_start_page s..b_end_page s})
             = {e_page e' + off..tp}"
      by simp
    from Cons Cons.prems have lt: "e_page e < e_page e'"
      and r: "1 \<le> e_page e + off" "e_page e' + off \<le> tp" by auto
    have "(\<Union>s \<in> set (calculate_section_boundaries (e # es) tp off).
             {b_start_page s..b_end_page s})
        = {e_page e + off..e_page e' + off - 1} \<union> {e_page e' + off..tp}"
      using lt r unfolding ih [symmetric]
      by (simp add: Cons Let_def start_page_extend end_page_extend)
    also have "\<dots> = {e_page e + off..tp}" using lt r by auto
    finally show ?thesis by simp
  qed
qed

lemma planned_start_in_range:
  "i < length es \<Longrightarrow> 1 \<le> e_page (es ! i) + off \<Longrightarrow> e_page (es ! i) + off \<le> tp \<Longrightarrow>
   b_start_page (calculate_section_boundaries es tp off ! i) = e_page (es ! i) + off"
  by (simp add: start_page_boundaries)

lemma planned_end_in_range:
  "Suc i < length es \<Longrightarrow> 1 \<le> e_page (es ! i) + off \<Longrightarrow> e_page (es ! i) + off \<le> tp \<Longrightarrow>
   e_page (es ! i) < e_page (es ! Suc i) \<Longrightarrow> e_page (es ! Suc i) + off \<le> tp \<Longrightarrow>
   b_end_page (calculate_section_boundaries es tp off ! i) = e_page (es ! Suc i) + off - 1"
  by (simp add: end_page_boundaries_inner start_page_boundaries)

lemma planned_range_head:
  "\<exists>x. calculate_section_boundaries (e # e' # es) tp off
          = x # calculate_section_boundaries (e' # es) tp off
      \<and> b_start_page x = max 1 (min (e_page e + off) tp)
      \<and> b_end_page x = max (b_start_page x) (min (e_page e' + off - 1) tp)"
  by (simp add: Let_def start_page_extend end_page_extend)

lemma planned_range_first_start:
  "b_start_page (hd (calculate_section_boundaries (e # es) tp off))
     = max 1 (min (e_page e + off) tp)"
  by (simp add: Let_def start_page_extend)

lemma union_of_planned_ranges_general:
  "1 \<le> tp \<Longrightarrow> es \<noteq> [] \<Longrightarrow>
   (\<Union>x \<in> set (calculate_section_boundaries es tp off). {b_start_page x..b_end_page x})
     = {Min (b_start_page ` set (calculate_section_boundaries es tp off))..tp}"
proof (induction es)
  case Nil
  then show ?case by simp
next
  case (Cons e es)
  note tp = \<open>1 \<le> tp\<close>
  show ?case
  proof (cases es)
    case Nil
    with tp show ?thesis
      by (simp add: Let_def start_page_extend end_page_extend)
  next
    case c: (Cons e' es')
    let ?rest = "calculate_section_boundaries es tp off"
    let ?S = "b_start_page ` set ?rest"
    from planned_range_head [of e e' es' tp off] obtain x where
      bs0: "calculate_section_boundaries (e # e' # es') tp off
              = x # calculate_section_boundaries (e' # es') tp off"
      and sx: "b_start_page x = max 1 (min (e_page e + off) tp)"
      and ex: "b_end_page x = max (b_start_page x) (min (e_page e' + off - 1) tp)"
      by blast
    have bs: "calculate_section_boundaries (e # es) tp off = x # ?rest"
      using bs0 by (simp only: c)
    have nes: "es \<noteq> []" by (simp only: c) simp
    have "length ?rest = length es" by (rule length_calculate_section_boundaries)
    with nes have ne: "?rest \<noteq> []" by auto
    then have fin: "finite ?S" "?S \<noteq> {}" by simp_all
    have ih: "(\<Union>x \<in> set ?rest. {b_start_page x..b_end_page x}) = {Min ?S..tp}"
      using tp nes by (rule Cons.IH)
    have "b_start_page (hd (calculate_section_boundaries (e' # es') tp off))
        = max 1 (min (e_page e' + off) tp)"
      by (rule planned_range_first_start)
    then have h: "b_start_page (hd ?rest) = max 1 (min (e_page e' + off) tp)"
      by (simp only: c)
    have "hd ?rest \<in> set ?rest" using ne by (rule hd_in_set)
    then have "b_start_page (hd ?rest) \<in> ?S" by (rule imageI)
    with fin(1) have "Min ?S \<le> b_start_page (hd ?rest)" by (rule Min_le)
    with h have m1: "Min ?S \<le> max 1 (min (e_page e' + off) tp)" by (simp only:)
    have m: "Min ?S \<le> b_end_page x + 1" using m1 sx ex by linarith
    have se: "b_start_page x \<le> b_end_page x" using ex by linarith
    have et: "b_end_page x \<le> tp" using sx ex tp by linarith
    have "(\<Union>x \<in> set (calculate_section_boundaries (e # es) tp off).
             {b_start_page x..b_end_page x})
        = {b_start_page x..b_end_page x} \<union> {Min ?S..tp}"
      by (simp only: bs list.set UN_insert ih)
    also have "\<dots> = {min (b_start_page x) (Min ?S)..tp}"
    proof (rule set_eqI)
      fix y
      show "(y \<in> {b_start_page x..b_end_page x} \<union> {Min ?S..tp})
          = (y \<in> {min (b_start_page x) (Min ?S)..tp})"
        using m se et by (simp only: Un_iff atLeastAtMost_iff) linarith
    qed
    also have "min (b_start_page x) (Min ?S)
        = Min (b_start_page ` set (calculate_section_boundaries (e # es) tp off))"
      using fin by (simp only: bs list.set image_insert) (simp add: Min_insert)
    finally show ?thesis .
  qed
qed

lemma planned_no_gap:
  "Suc i < length es \<Longrightarrow>
   b_start_page (calculate_section_boundaries es tp off ! Suc i)
     \<le> b_end_page (calculate_section_boundaries es tp off ! i) + 1"
proof -
  assume i: "Suc i < length es"
  then have "b_end_page (calculate_section_boundaries es tp off ! i)
      = max (b_start_page (calculate_section_boundaries es tp off ! i))
          (min (e_page (es ! Suc i) + off - 1) tp)"
    by (rule end_page_boundaries_inner)
  moreover have "b_start_page (calculate_section_boundaries es tp off ! i)
      = max 1 (min (e_page (es ! i) + off) tp)"
    using i by (intro start_page_boundaries) simp
  moreover have "b_start_page (calculate_section_boundaries es tp off ! Suc i)
      = max 1 (min (e_page (es ! Suc i) + off) tp)"
    using i by (rule start_page_boundaries)
  ultimately show ?thesis by linarith
qed

lemma planned_collapse:
  "Suc i < length es \<Longrightarrow>
   e_page (es ! Suc i) + off \<le> b_start_page (calculate_section_boundaries es tp off ! i) \<Longrightarrow>
   b_end_page (calculate_section_boundaries es tp off ! i)
     = b_start_page (calculate_section_boundaries es tp off ! i)"
  by (simp add: end_page_boundaries_inner)

text \<open>
  Claim C5, amended.  For a non-empty (possibly level-filtered) outline of a document
  with at least one page, the planned ranges together are the pages from the smallest
  start page of the sections through \<open>totalPages\<close>, and there is no gap between
  consecutive sections: each starts no later than the page after the end of the one
  before it.  A section whose successor's page number, after the offset, is not beyond
  its own start page collapses to that single page.  When the page numbers, after the
  offset, increase strictly and lie between 1 and \<open>totalPages\<close>, the smallest start page
  is the first entry's page, each section starts on the page after the end of the one
  before it, and no page belongs to two sections.
\<close>

theorem outline_ranges_partition:
  assumes tp: "1 \<le> tp" and ne: "es \<noteq> []"
  shows "(\<Union>s \<in> set (calculate_section_boundaries es tp off). {b_start_page s..b_end_page s})
           = {Min (b_start_page ` set (calculate_section_boundaries es tp off))..tp}
    \<and> (\<forall>i. Suc i < length es \<longrightarrow>
          b_start_page (calculate_section_boundaries es tp off ! Suc i)
            \<le> b_end_page (calculate_section_boundaries es tp off ! i) + 1)
    \<and> (\<forall>i. Suc i < length es
            \<and> e_page (es ! Suc i) + off
                \<le> b_start_page (calculate_section_boundaries es tp off ! i) \<longrightarrow>
          b_end_page (calculate_section_boundaries es tp off ! i)
            = b_start_page (calculate_section_boundaries es tp off ! i))
    \<and> (sorted_wrt (<) (map e_page es)
        \<and> (\<forall>e \<in> set es. 1 \<le> e_page e + off \<and> e_page e + off \<le> tp) \<longrightarrow>
          (\<Union>s \<in> set (calculate_section_boundaries es tp off). {b_start_page s..b_end_page s})
            = {e_page (hd es) + off..tp}
          \<and> (\<forall>i. Suc i < length es \<longrightarrow>
                b_start_page (calculate_section_boundaries es tp off ! Suc i)
                  = b_end_page (calculate_section_boundaries es tp off ! i) + 1)
          \<and> (\<forall>i j. i < j \<and> j < length es \<longrightarrow>
                {b_start_page (calculate_section_boundaries es tp off ! i)..
                   b_end_page (calculate_section_boundaries es tp off ! i)}
                \<inter> {b_start_page (calculate_section_boundaries es tp off ! j)..
                     b_end_page (calculate_section_boundaries es tp off ! j)} = {}))"
proof (intro conjI allI impI)
  show "(\<Union>s \<in> set (calculate_section_boundaries es tp off). {b_start_page s..b_end_page s})
           = {Min (b_start_page ` set (calculate_section_boundaries es tp off))..tp}"
    using tp ne by (rule union_of_planned_ranges_general)
next
  fix i assume "Suc i < length es"
  then show "b_start_page (calculate_section_boundaries es tp off ! Suc i)
            \<le> b_end_page (calculate_section_boundaries es tp off ! i) + 1"
    by (rule planned_no_gap)
next
  fix i assume "Suc i < length es
            \<and> e_page (es ! Suc i) + off
                \<le> b_start_page (calculate_section_boundaries es tp off ! i)"
  then show "b_end_page (calculate_section_boundaries es tp off ! i)
            = b_start_page (calculate_section_boundaries es tp off ! i)"
    by (intro planned_collapse) simp_all
next
  assume "sorted_wrt (<) (map e_page es)
        \<and> (\<forall>e \<in> set es. 1 \<le> e_page e + off \<and> e_page e + off \<le> tp)"
  then show "(\<Union>s \<in> set (calculate_section_boundaries es tp off). {b_start_page s..b_end_page s})
            = {e_page (hd es) + off..tp}"
    using ne by (intro union_of_planned_ranges) simp_all
next
  fix i
  assume h: "sorted_wrt (<) (map e_page es)
        \<and> (\<forall>e \<in> set es. 1 \<le> e_page e + off \<and> e_page e + off \<le> tp)"
    and i: "Suc i < length es"
  from h have inc: "sorted_wrt (<) (map e_page es)"
    and rng: "\<forall>e \<in> set es. 1 \<le> e_page e + off \<and> e_page e + off \<le> tp" by simp_all
  have r: "\<And>k. k < length es \<Longrightarrow> 1 \<le> e_page (es ! k) + off \<and> e_page (es ! k) + off \<le> tp"
    using rng by simp
  have lt: "e_page (es ! i) < e_page (es ! Suc i)"
    using inc i by (simp add: sorted_wrt_iff_nth_less)
  have "b_end_page (calculate_section_boundaries es tp off ! i) = e_page (es ! Suc i) + off - 1"
    using i r [of i] r [of "Suc i"] lt by (intro planned_end_in_range) auto
  moreover have "b_start_page (calculate_section_boundaries es tp off ! Suc i)
      = e_page (es ! Suc i) + off"
    using i r [of "Suc i"] by (intro planned_start_in_range) auto
  ultimately show "b_start_page (calculate_section_boundaries es tp off ! Suc i)
      = b_end_page (calculate_section_boundaries es tp off ! i) + 1"
    by simp
next
  fix i j
  assume h: "sorted_wrt (<) (map e_page es)
        \<and> (\<forall>e \<in> set es. 1 \<le> e_page e + off \<and> e_page e + off \<le> tp)"
    and ij: "i < j \<and> j < length es"
  from h have inc: "sorted_wrt (<) (map e_page es)"
    and rng: "\<forall>e \<in> set es. 1 \<le> e_page e + off \<and> e_page e + off \<le> tp" by simp_all
  have r: "\<And>k. k < length es \<Longrightarrow> 1 \<le> e_page (es ! k) + off \<and> e_page (es ! k) + off \<le> tp"
    using rng by simp
  from ij have i: "Suc i < length es" by simp
  have lt: "e_page (es ! i) < e_page (es ! Suc i)"
    using inc i by (simp add: sorted_wrt_iff_nth_less)
  have le: "e_page (es ! Suc i) \<le> e_page (es ! j)"
  proof (cases "Suc i = j")
    case True
    then show ?thesis by simp
  next
    case False
    with ij have "Suc i < j" by simp
    with inc ij show ?thesis by (simp add: sorted_wrt_iff_nth_less less_imp_le)
  qed
  have e: "b_end_page (calculate_section_boundaries es tp off ! i) = e_page (es ! Suc i) + off - 1"
    using i r [of i] r [of "Suc i"] lt by (intro planned_end_in_range) auto
  have s: "b_start_page (calculate_section_boundaries es tp off ! j) = e_page (es ! j) + off"
    using ij r [of j] by (intro planned_start_in_range) auto
  show "{b_start_page (calculate_section_boundaries es tp off ! i)..
             b_end_page (calculate_section_boundaries es tp off ! i)}
          \<inter> {b_start_page (calculate_section_boundaries es tp off ! j)..
               b_end_page (calculate_section_boundaries es tp off ! j)} = {}"
    unfolding e s using le by auto
qed

theorem outline_ranges_partition_witness:
  "(\<Union>s \<in> set (calculate_section_boundaries
        [\<lparr>e_level = 1, e_title = ''A'', e_page = 1, e_section_id = ''a''\<rparr>,
         \<lparr>e_level = 2, e_title = ''B'', e_page = 10, e_section_id = ''b''\<rparr>,
         \<lparr>e_level = 1, e_title = ''C'', e_page = 25, e_section_id = ''c''\<rparr>] 30 0).
      {b_start_page s..b_end_page s}) = {1..30}
   \<and> b_end_page (calculate_section_boundaries
        [\<lparr>e_level = 1, e_title = ''A'', e_page = 5, e_section_id = ''a''\<rparr>,
         \<lparr>e_level = 1, e_title = ''B'', e_page = 5, e_section_id = ''b''\<rparr>,
         \<lparr>e_level = 1, e_title = ''C'', e_page = 10, e_section_id = ''c''\<rparr>] 30 0 ! 0)
     = b_start_page (calculate_section_boundaries
        [\<lparr>e_level = 1, e_title = ''A'', e_page = 5, e_section_id = ''a''\<rparr>,
         \<lparr>e_level = 1, e_title = ''B'', e_page = 5, e_section_id = ''b''\<rparr>,
         \<lparr>e_level = 1, e_title = ''C'', e_page = 10, e_section_id = ''c''\<rparr>] 30 0 ! 0)"
proof -
  let ?es = "[\<lparr>e_level = 1, e_title = ''A'', e_page = 1, e_section_id = ''a''\<rparr>,
              \<lparr>e_level = 2, e_title = ''B'', e_page = 10, e_section_id = ''b''\<rparr>,
              \<lparr>e_level = 1, e_title = ''C'', e_page = 25, e_section_id = ''c''\<rparr>]"
  let ?ds = "[\<lparr>e_level = 1, e_title = ''A'', e_page = 5, e_section_id = ''a''\<rparr>,
              \<lparr>e_level = 1, e_title = ''B'', e_page = 5, e_section_id = ''b''\<rparr>,
              \<lparr>e_level = 1, e_title = ''C'', e_page = 10, e_section_id = ''c''\<rparr>]"
  have tp: "(1::int) \<le> 30" by simp
  have ne: "?es \<noteq> []" and nd: "?ds \<noteq> []" by simp_all
  have inc: "sorted_wrt (<) (map e_page ?es)
      \<and> (\<forall>e \<in> set ?es. 1 \<le> e_page e + 0 \<and> e_page e + 0 \<le> 30)" by simp
  have dup: "Suc 0 < length ?ds
      \<and> e_page (?ds ! Suc 0) + 0 \<le> b_start_page (calculate_section_boundaries ?ds 30 0 ! 0)"
    by (simp add: Let_def start_page_extend)
  note t1 = outline_ranges_partition [OF tp ne, of 0]
  note t2 = outline_ranges_partition [OF tp nd, of 0]
  from t1 inc have "(\<Union>s \<in> set (calculate_section_boundaries ?es 30 0).
      {b_start_page s..b_end_page s}) = {e_page (hd ?es) + 0..30}"
    by blast
  moreover from t2 dup have "b_end_page (calculate_section_boundaries ?ds 30 0 ! 0)
      = b_start_page (calculate_section_boundaries ?ds 30 0 ! 0)"
    by blast
  ultimately show ?thesis by simp
qed


section \<open>Title and boundary of a section\<close>

text \<open>
  Claim C8.  In a window of the scan strategy starting at page \<open>s\<close>, a heading marker
  on the first page gives the section its title; without one the section is titled
  "Content starting at Page s" and has the id "untitled_page_s".  The first later page of
  the window with a heading marker is the boundary: the section ends on the page before
  it and the next section starts on it, so no page belongs to both.  With markers on
  pages 1, 3, 3 a run gives exactly two sections, the first ending at page 2, whether or
  not the output directory existed before.
\<close>

theorem scan_window_title_and_boundary:
  "(rd (py_range start_page
          (start_page + min look_ahead_pages (total_pages - start_page + 1))) = Some result
      \<longrightarrow> (case fst (extract_next_section rd start_page total_pages look_ahead_pages) of
             None \<Rightarrow> True
           | Some sec \<Rightarrow>
               si_start_page sec = start_page
               \<and> si_section_title sec =
                   (case find_section_header_in_text (hd result) of
                      None \<Rightarrow> ''Content starting at Page '' @ int_str start_page
                    | Some (t, n) \<Rightarrow> t)
               \<and> si_section_id sec =
                   (case find_section_header_in_text (hd result) of
                      None \<Rightarrow> ''untitled_page_'' @ int_str start_page
                    | Some (t, n) \<Rightarrow> title_to_id t)))
   \<and> (start_page \<le> total_pages
      \<and> rd (py_range start_page
              (start_page + min look_ahead_pages (total_pages - start_page + 1))) = Some result
      \<and> 0 < j \<and> j < length result
      \<and> find_section_header_in_text (result ! j) \<noteq> None
      \<and> (\<forall>k. 0 < k \<and> k < j \<longrightarrow> find_section_header_in_text (result ! k) = None)
      \<and> rd (py_range start_page (start_page + int j)) = Some final_result
      \<longrightarrow> (\<exists>sec. extract_next_section rd start_page total_pages look_ahead_pages
                    = (Some sec, start_page + int j)
               \<and> si_end_page sec = start_page + int j - 1
               \<and> si_pages sec = py_range start_page (start_page + int j)))
   \<and> (\<exists>sm. fst (extract_all_sections
                   (render_pages [''##### A'', ''text'', ''##### B'' @ [newline] @ ''##### C''] {})
                   (Some \<lparr>doc_toc = [], doc_page_count = 3\<rparr>) ''doc'' 1 output_dir_exists)
             = ScanSummary sm
           \<and> map (\<lambda>s. (ss_start_page s, ss_end_page s)) (sum_sections sm) = [(1, 2), (3, 3)])"
proof (intro conjI impI)
  assume w: "rd (py_range start_page
          (start_page + min look_ahead_pages (total_pages - start_page + 1))) = Some result"
  show "case fst (extract_next_section rd start_page total_pages look_ahead_pages) of
          None \<Rightarrow> True
        | Some sec \<Rightarrow>
            si_start_page sec = start_page
            \<and> si_section_title sec =
                (case find_section_header_in_text (hd result) of
                   None \<Rightarrow> ''Content starting at Page '' @ int_str start_page
                 | Some (t, n) \<Rightarrow> t)
            \<and> si_section_id sec =
                (case find_section_header_in_text (hd result) of
                   None \<Rightarrow> ''untitled_page_'' @ int_str start_page
                 | Some (t, n) \<Rightarrow> title_to_id t)"
  proof (cases "extract_next_section rd start_page total_pages look_ahead_pages")
    case (Pair r nxt)
    show ?thesis
    proof (cases r)
      case None
      with Pair show ?thesis by simp
    next
      case (Some sec)
      with Pair w show ?thesis
        using extract_next_section_title
          [of rd start_page look_ahead_pages total_pages result sec nxt]
        by simp
    qed
  qed
next
  assume h: "start_page \<le> total_pages
      \<and> rd (py_range start_page
              (start_page + min look_ahead_pages (total_pages - start_page + 1))) = Some result
      \<and> 0 < j \<and> j < length result
      \<and> find_section_header_in_text (result ! j) \<noteq> None
      \<and> (\<forall>k. 0 < k \<and> k < j \<longrightarrow> find_section_header_in_text (result ! k) = None)
      \<and> rd (py_range start_page (start_page + int j)) = Some final_result"
  show "\<exists>sec. extract_next_section rd start_page total_pages look_ahead_pages
                 = (Some sec, start_page + int j)
           \<and> si_end_page sec = start_page + int j - 1
           \<and> si_pages sec = py_range start_page (start_page + int j)"
    by (rule extract_next_section_boundary [of start_page total_pages rd look_ahead_pages result
          j final_result]) (use h in blast)+
next
  show "\<exists>sm. fst (extract_all_sections
                   (render_pages [''##### A'', ''text'', ''##### B'' @ [newline] @ ''##### C''] {})
                   (Some \<lparr>doc_toc = [], doc_page_count = 3\<rparr>) ''doc'' 1 output_dir_exists)
             = ScanSummary sm
           \<and> map (\<lambda>s. (ss_start_page s, ss_end_page s)) (sum_sections sm) = [(1, 2), (3, 3)]"
    using scenario_D_run [of output_dir_exists] by (auto split: scan_result.splits)
qed

theorem scan_window_title_and_boundary_witness:
  "\<exists>sec. extract_next_section
            (render_pages [''##### A'', ''text'', ''##### B'' @ [newline] @ ''##### C''] {}) 1 3 20
          = (Some sec, 3)
      \<and> si_start_page sec = 1 \<and> si_end_page sec = 2 \<and> si_section_title sec = ''A''"
proof -
  let ?texts = "[''##### A'', ''text'', ''##### B'' @ [newline] @ ''##### C'']"
  let ?rd = "render_pages ?texts {}"
  have w: "?rd (py_range 1 (1 + min 20 (3 - 1 + 1))) = Some ?texts"
    by (rule scenario_D_window)
  have f: "?rd (py_range 1 (1 + int 2)) = Some [''##### A'', ''text'']"
    by code_simp
  have hs: "find_section_header_in_text (?texts ! 2) \<noteq> None"
    "\<forall>k. 0 < k \<and> k < (2::nat) \<longrightarrow> find_section_header_in_text (?texts ! k) = None"
  proof -
    show "find_section_header_in_text (?texts ! 2) \<noteq> None"
      by code_simp
    show "\<forall>k. 0 < k \<and> k < (2::nat) \<longrightarrow> find_section_header_in_text (?texts ! k) = None"
    proof (intro allI impI)
      fix k :: nat assume "0 < k \<and> k < 2"
      then have "k = 1" by simp
      moreover have "find_section_header_in_text (?texts ! 1) = None" by code_simp
      ultimately show "find_section_header_in_text (?texts ! k) = None" by simp
    qed
  qed
  note t = scan_window_title_and_boundary
    [of ?rd 1 20 3 ?texts 2 "[''##### A'', ''text'']"]
  from t w f hs obtain sec where
    s: "extract_next_section ?rd 1 3 20 = (Some sec, 1 + int 2)" "si_end_page sec = 1 + int 2 - 1"
    by auto
  have h: "find_section_header_in_text (hd ?texts) = Some (''A'', 0)" by code_simp
  from t w s have "si_start_page sec = 1 \<and> si_section_title sec = ''A''"
    by (simp only: h fst_conv option.case prod.case)
  with s show ?thesis by simp
qed


section \<open>Progress of the cursor\<close>

text \<open>
  Claim C10.  A call of \<^verbatim>\<open>extract_next_section\<close> at a start page that is a page of the
  document returns a next start page strictly greater than the start page, on every
  path.  The cursor of the loop in \<^verbatim>\<open>extract_all_sections\<close> therefore advances with every
  section, and the loop adds at most one section per page left between its cursor and
  the last page.
\<close>

theorem next_start_page_advances:
  "start_page \<le> total_pages \<Longrightarrow>
   start_page < snd (extract_next_section rd start_page total_pages look_ahead_pages)
   \<and> length (st_sections (scan_loop rd pdf_name total_pages start_page section_count st))
       \<le> length (st_sections st) + nat (total_pages + 1 - start_page)"
  by (intro conjI extract_next_section_advances scan_loop_sections_bound_cursor)

theorem next_start_page_advances_witness:
  "(1::int) \<le> 3
   \<and> 1 < snd (extract_next_section
               (render_pages [''##### A'', ''text'', ''##### B'' @ [newline] @ ''##### C''] {})
               1 3 20)
   \<and> length (st_sections
        (scan_loop (render_pages [''##### A'', ''text'', ''##### B'' @ [newline] @ ''##### C''] {})
           ''doc'' 3 1 0 \<lparr>st_sections = [], st_created_files = [], st_written = []\<rparr>)) \<le> 3"
  using next_start_page_advances
    [of 1 3 "render_pages [''##### A'', ''text'', ''##### B'' @ [newline] @ ''##### C''] {}"
        20 "''doc''" 0 "\<lparr>st_sections = [], st_created_files = [], st_written = []\<rparr>"]
  by simp


section \<open>The text of a section\<close>

text \<open>
  Claim C9, as the claim states it, fails.  The outline strategy puts one line feed
  after each page and strips the result, so the pages "a" and "b" give "a", one line
  feed, "b", with no blank line between them.  The scan strategy adds its separator
  only once the content is not empty, so an empty first page leaves no separator.
\<close>

theorem blank_line_join_counterexample:
  "map_option sc_text (extract_section_content (render_pages [''a'', ''b''] {})
       \<lparr>e_level = 1, e_title = ''T'', e_page = 1, e_section_id = ''t'',
        b_start_page = 1, b_end_page = 2, b_page_count = 2\<rparr>)
     = Some (''a'' @ [newline] @ ''b'')
   \<and> ''a'' @ [newline] @ ''b'' \<noteq> spec_join [newline, newline] [''a'', ''b'']
   \<and> map_option si_content (fst (extract_next_section (render_pages [[], ''b''] {}) 1 2 20))
     = Some ''b''
   \<and> ''b'' \<noteq> spec_join [newline, newline] [[], ''b'']"
  by code_simp

text \<open>
  Claim C9, amended.  The content of a section of the scan strategy is the texts of its
  pages, as rendered in the final fetch of the pages from its start page to its end
  page, joined with a blank line between consecutive pages, the empty page texts at
  the start left out.  The text of a section of the outline strategy is the texts of
  its pages joined with a single line feed, with the whitespace at both ends removed.
\<close>

theorem section_text_is_joined_pages:
  "(extract_next_section rd start_page total_pages look_ahead_pages = (Some sec, nxt) \<longrightarrow>
      (\<exists>final_result. rd (py_range (si_start_page sec) (si_end_page sec + 1)) = Some final_result
         \<and> si_content sec
             = spec_join [newline, newline]
                 (dropWhile (\<lambda>page_text. page_text = []) final_result)))
   \<and> (extract_section_content rd planned = Some sc \<longrightarrow>
      (\<exists>result. rd (py_range (b_start_page planned) (b_end_page planned + 1)) = Some result
         \<and> sc_text sc = strip (spec_join [newline] result)))"
proof (intro conjI impI)
  assume a: "extract_next_section rd start_page total_pages look_ahead_pages = (Some sec, nxt)"
  then have p: "si_pages sec = py_range (si_start_page sec) (si_end_page sec + 1)"
    by (auto simp: extract_next_section_def Let_def split: if_splits option.splits)
  from extract_next_section_content [OF a] obtain final_result where
    "rd (si_pages sec) = Some final_result" "si_content sec = combine_pages final_result"
    by blast
  with p show "\<exists>final_result.
      rd (py_range (si_start_page sec) (si_end_page sec + 1)) = Some final_result
      \<and> si_content sec
          = spec_join [newline, newline] (dropWhile (\<lambda>page_text. page_text = []) final_result)"
    by (simp add: combine_pages_join)
next
  assume a: "extract_section_content rd planned = Some sc"
  from extract_section_content_text [OF a]
  show "\<exists>result. rd (py_range (b_start_page planned) (b_end_page planned + 1)) = Some result
         \<and> sc_text sc = strip (spec_join [newline] result)"
    by blast
qed

theorem section_text_is_joined_pages_witness:
  "(\<exists>final_result.
      render_pages [''##### A'', ''some text'', ''##### B''] {}
        (py_range (si_start_page (the (fst (extract_next_section
             (render_pages [''##### A'', ''some text'', ''##### B''] {}) 1 3 20))))
           (si_end_page (the (fst (extract_next_section
             (render_pages [''##### A'', ''some text'', ''##### B''] {}) 1 3 20))) + 1))
        = Some final_result
      \<and> si_content (the (fst (extract_next_section
             (render_pages [''##### A'', ''some text'', ''##### B''] {}) 1 3 20)))
          = spec_join [newline, newline] (dropWhile (\<lambda>page_text. page_text = []) final_result))
   \<and> (\<exists>result. render_pages [''a b'', ''c''] {} (py_range 1 (2 + 1)) = Some result
         \<and> sc_text (the (extract_section_content (render_pages [''a b'', ''c''] {})
              \<lparr>e_level = 1, e_title = ''T'', e_page = 1, e_section_id = ''t'',
               b_start_page = 1, b_end_page = 2, b_page_count = 2\<rparr>))
            = strip (spec_join [newline] result))"
proof -
  let ?rd = "render_pages [''##### A'', ''some text'', ''##### B''] {}"
  let ?rt = "render_pages [''a b'', ''c''] {}"
  let ?pl = "\<lparr>e_level = 1, e_title = ''T'', e_page = 1, e_section_id = ''t'',
              b_start_page = 1, b_end_page = 2, b_page_count = 2\<rparr>"
  have "fst (extract_next_section ?rd 1 3 20) \<noteq> None" by code_simp
  then have e: "extract_next_section ?rd 1 3 20
      = (Some (the (fst (extract_next_section ?rd 1 3 20))), snd (extract_next_section ?rd 1 3 20))"
    by (cases "extract_next_section ?rd 1 3 20") auto
  have "extract_section_content ?rt ?pl \<noteq> None" by code_simp
  then have c: "extract_section_content ?rt ?pl = Some (the (extract_section_content ?rt ?pl))"
    by auto
  note t1 = section_text_is_joined_pages
    [of ?rd 1 3 20 "the (fst (extract_next_section ?rd 1 3 20))"
        "snd (extract_next_section ?rd 1 3 20)" ?pl "the (extract_section_content ?rd ?pl)",
     THEN conjunct1, rule_format, OF e]
  note t2 = section_text_is_joined_pages
    [of ?rt 1 2 20 "the (fst (extract_next_section ?rt 1 2 20))"
        "snd (extract_next_section ?rt 1 2 20)" ?pl "the (extract_section_content ?rt ?pl)",
     THEN conjunct2, rule_format, OF c]
  from t2 have "\<exists>result. ?rt (py_range 1 (2 + 1)) = Some result
         \<and> sc_text (the (extract_section_content ?rt ?pl)) = strip (spec_join [newline] result)"
    by simp
  with t1 show ?thesis by blast
qed

end
